theory Spec2Isabelle
  imports Main "HOL-Library.Product_Lexorder"
begin

section \<open>Data model\<close>

text \<open>
  The tables of the cinema application as the serializers and views of
  \<^verbatim>\<open>src/cinema\<close> read and write them.  A model instance is a record, a
  table is the list of its rows in insertion order, a foreign key holds the
  primary key of the row it points to.  Primary keys are Python integers.
  Only the columns that the serializers and views touch are kept; the
  \<^verbatim>\<open>Movie\<close>, \<^verbatim>\<open>Genre\<close> and \<^verbatim>\<open>Actor\<close> tables play no part in
  booking and are left out (a session keeps the key of its movie).
\<close>

record CinemaHall =
  hall_id :: int
  hall_name :: string
  rows :: int
  seats_in_row :: int

text \<open>\<^verbatim>\<open>show_time\<close> is a date (a day number) and a time of day.\<close>

record MovieSession =
  session_id :: int
  show_time :: "int \<times> int"
  movie :: int
  cinema_hall :: int

record Order =
  order_id :: int
  created_at :: int
  user :: int

text \<open>
  The fields of \<^verbatim>\<open>TicketCreateSerializer\<close>: one submitted
  (row, seat, movie_session) triple.
\<close>

record ticket_attrs =
  row :: int
  seat :: int
  movie_session :: int

text \<open>\<^verbatim>\<open>Ticket(order=order, **ticket)\<close>: an instance that has no primary key yet.\<close>

record Ticket_unsaved = ticket_attrs +
  order :: int

text \<open>A row of the ticket table.\<close>

record Ticket = Ticket_unsaved +
  ticket_id :: int

record db =
  CinemaHall_objects :: "CinemaHall list"
  MovieSession_objects :: "MovieSession list"
  Order_objects :: "Order list"
  Ticket_objects :: "Ticket list"

text \<open>
  What a serializer or a view raises.  \<^verbatim>\<open>ValidationError\<close> carries its
  detail: a message, a dictionary from field names to messages, or the list of
  the details of the items of a list field (the empty dictionary for an item
  without errors).
\<close>

datatype detail = Msg string | Dict "(string \<times> string) list" | Items "detail list"

datatype error =
    ValidationError detail
  | IntegrityError
  | DoesNotExist
  | Http404
  | NotAuthenticated

fun is_validation_error :: "error \<Rightarrow> bool" where
  "is_validation_error (ValidationError d) = True"
| "is_validation_error e = False"

section \<open>Storage layer\<close>

text \<open>A new row gets the key after the largest one of its table.\<close>

definition next_pk :: "int list \<Rightarrow> int" where
  "next_pk pks = fold max pks 0 + 1"

definition get_hall :: "db \<Rightarrow> int \<Rightarrow> CinemaHall option" where
  "get_hall st pk = find (\<lambda>h. hall_id h = pk) (CinemaHall_objects st)"

definition get_session :: "db \<Rightarrow> int \<Rightarrow> MovieSession option" where
  "get_session st pk = find (\<lambda>s. session_id s = pk) (MovieSession_objects st)"

definition get_order :: "db \<Rightarrow> int \<Rightarrow> Order option" where
  "get_order st pk = find (\<lambda>x. order_id x = pk) (Order_objects st)"

text \<open>
  \<^verbatim>\<open>Ticket.objects.filter(movie_session=..., row=..., seat=...)\<close> and
  \<^verbatim>\<open>.exists()\<close>.
\<close>

definition Ticket_objects_filter :: "db \<Rightarrow> int \<Rightarrow> int \<Rightarrow> int \<Rightarrow> Ticket list" where
  "Ticket_objects_filter st ms r s =
     filter (\<lambda>t. movie_session t = ms \<and> row t = r \<and> seat t = s) (Ticket_objects st)"

definition exists_qs :: "'a list \<Rightarrow> bool" where
  "exists_qs qs = (qs \<noteq> [])"

text \<open>\<^verbatim>\<open>Order.objects.create(user=user)\<close>; \<^verbatim>\<open>now\<close> is the clock reading
  stored in \<^verbatim>\<open>created_at\<close>.\<close>

definition Order_objects_create :: "db \<Rightarrow> int \<Rightarrow> int \<Rightarrow> Order \<times> db" where
  "Order_objects_create st usr now =
     (let new = \<lparr>order_id = next_pk (map order_id (Order_objects st)),
                 created_at = now, user = usr\<rparr>
      in (new, st\<lparr>Order_objects := Order_objects st @ [new]\<rparr>))"

text \<open>
  Modelled from the spec: \<^verbatim>\<open>cinema/models.py\<close> is not part of the sources.
  The spec gives the ticket table standard referential integrity and no
  uniqueness constraint on (session, row, seat) at the storage layer.  So an
  insert fails with \<^verbatim>\<open>IntegrityError\<close> exactly when a ticket points to a
  session or an order that does not exist; \<^verbatim>\<open>bulk_create\<close> is one statement
  and inserts nothing when it fails.
\<close>

definition fk_ok :: "db \<Rightarrow> Ticket_unsaved \<Rightarrow> bool" where
  "fk_ok st t = (get_session st (movie_session t) \<noteq> None \<and> get_order st (order t) \<noteq> None)"

fun insert_all :: "Ticket list \<Rightarrow> Ticket_unsaved list \<Rightarrow> Ticket list" where
  "insert_all table [] = table"
| "insert_all table (t # ts) =
     insert_all
       (table @ [\<lparr>row = row t, seat = seat t, movie_session = movie_session t,
                  order = order t, ticket_id = next_pk (map ticket_id table)\<rparr>]) ts"

definition bulk_create :: "db \<Rightarrow> Ticket_unsaved list \<Rightarrow> error + db" where
  "bulk_create st ts =
     (if list_all (fk_ok st) ts
      then Inr (st\<lparr>Ticket_objects := insert_all (Ticket_objects st) ts\<rparr>)
      else Inl IntegrityError)"

text \<open>
  \<^verbatim>\<open>@transaction.atomic\<close>: when the body raises, the writes it made are
  rolled back and the exception goes on to the caller.
\<close>

definition atomic :: "(db \<Rightarrow> (error + 'a) \<times> db) \<Rightarrow> db \<Rightarrow> (error + 'a) \<times> db" where
  "atomic body st =
     (case body st of
        (Inl e, st') \<Rightarrow> (Inl e, st)
      | (Inr v, st') \<Rightarrow> (Inr v, st'))"

section \<open>Serializers\<close>

subsection \<open>TicketCreateSerializer\<close>

text \<open>
  \<^verbatim>\<open>validate\<close> (serializers.py, lines 195 to 218).  \<^verbatim>\<open>ms\<close> is the
  session object that field validation put into \<^verbatim>\<open>attrs\<close>.  Reading
  \<^verbatim>\<open>movie_session.cinema_hall\<close> raises \<^verbatim>\<open>DoesNotExist\<close> when the hall row
  is missing, which is not a validation error.
\<close>

definition TicketCreateSerializer_validate ::
  "db \<Rightarrow> MovieSession \<Rightarrow> ticket_attrs \<Rightarrow> error + ticket_attrs" where
  "TicketCreateSerializer_validate st ms attrs =
     (case get_hall st (cinema_hall ms) of
        None \<Rightarrow> Inl DoesNotExist
      | Some hall \<Rightarrow>
          if row attrs < 1 \<or> row attrs > rows hall
          then Inl (ValidationError (Dict [(''row'', ''Row number is out of range.'')]))
          else if seat attrs < 1 \<or> seat attrs > seats_in_row hall
          then Inl (ValidationError (Dict [(''seat'', ''Seat number is out of range.'')]))
          else if exists_qs (Ticket_objects_filter st (session_id ms) (row attrs) (seat attrs))
          then Inl (ValidationError (Msg ''This place is already taken.''))
          else Inr attrs)"

text \<open>
  Validation of one item: the \<^verbatim>\<open>movie_session\<close> field is a primary key
  that has to name a session; then \<^verbatim>\<open>validate\<close> runs.
\<close>

definition run_child_validation :: "db \<Rightarrow> ticket_attrs \<Rightarrow> error + ticket_attrs" where
  "run_child_validation st item =
     (case get_session st (movie_session item) of
        None \<Rightarrow>
          Inl (ValidationError
                 (Dict [(''movie_session'', ''Invalid pk - object does not exist.'')]))
      | Some ms \<Rightarrow> TicketCreateSerializer_validate st ms item)"

text \<open>
  \<^verbatim>\<open>TicketCreateSerializer(many=True)\<close>: every item is validated, the
  validation errors are collected, and the list is rejected when at least
  one item has an error.  Any other exception leaves the loop at once.
\<close>

fun list_to_internal_value ::
  "db \<Rightarrow> ticket_attrs list \<Rightarrow> detail list \<Rightarrow> ticket_attrs list \<Rightarrow> error + ticket_attrs list"
where
  "list_to_internal_value st [] errors ret =
     (if list_ex (\<lambda>d. d \<noteq> Dict []) errors
      then Inl (ValidationError (Items errors))
      else Inr ret)"
| "list_to_internal_value st (item # data) errors ret =
     (case run_child_validation st item of
        Inr validated \<Rightarrow>
          list_to_internal_value st data (errors @ [Dict []]) (ret @ [validated])
      | Inl (ValidationError d) \<Rightarrow>
          list_to_internal_value st data (errors @ [d]) ret
      | Inl e \<Rightarrow> Inl e)"

subsection \<open>OrderCreateSerializer\<close>

text \<open>\<^verbatim>\<open>validate_tickets\<close> (serializers.py, lines 229 to 242).\<close>

fun validate_tickets_loop ::
  "(int \<times> int \<times> int) set \<Rightarrow> ticket_attrs list \<Rightarrow> error + unit" where
  "validate_tickets_loop seen [] = Inr ()"
| "validate_tickets_loop seen (item # items) =
     (let key = (movie_session item, row item, seat item)
      in if key \<in> seen
         then Inl (ValidationError (Msg ''Duplicate tickets in request.''))
         else validate_tickets_loop (insert key seen) items)"

definition validate_tickets :: "ticket_attrs list \<Rightarrow> error + ticket_attrs list" where
  "validate_tickets tickets =
     (case validate_tickets_loop {} tickets of
        Inl e \<Rightarrow> Inl e
      | Inr u \<Rightarrow> Inr tickets)"

text \<open>
  \<^verbatim>\<open>is_valid\<close>: the \<^verbatim>\<open>tickets\<close> field is validated item by item, then
  \<^verbatim>\<open>validate_tickets\<close> sees the validated list.
\<close>

definition is_valid :: "db \<Rightarrow> ticket_attrs list \<Rightarrow> error + ticket_attrs list" where
  "is_valid st data =
     (case list_to_internal_value st data [] [] of
        Inl e \<Rightarrow> Inl e
      | Inr tickets \<Rightarrow> validate_tickets tickets)"

text \<open>\<^verbatim>\<open>create\<close> (serializers.py, lines 244 to 257), first without its decorator.\<close>

definition new_ticket :: "Order \<Rightarrow> ticket_attrs \<Rightarrow> Ticket_unsaved" where
  "new_ticket ord ticket =
     \<lparr>row = row ticket, seat = seat ticket, movie_session = movie_session ticket,
      order = order_id ord\<rparr>"

definition create_body :: "int \<Rightarrow> int \<Rightarrow> ticket_attrs list \<Rightarrow> db \<Rightarrow> (error + Order) \<times> db" where
  "create_body usr now tickets_data st =
     (let (ord, st1) = Order_objects_create st usr now;
          tickets_to_create = map (new_ticket ord) tickets_data
      in case bulk_create st1 tickets_to_create of
           Inl e \<Rightarrow> (Inl e, st1)
         | Inr st2 \<Rightarrow> (Inr ord, st2))"

definition OrderCreateSerializer_create ::
  "int \<Rightarrow> int \<Rightarrow> ticket_attrs list \<Rightarrow> db \<Rightarrow> (error + Order) \<times> db" where
  "OrderCreateSerializer_create usr now tickets_data = atomic (create_body usr now tickets_data)"

section \<open>Views\<close>

subsection \<open>MovieSessionViewSet\<close>

text \<open>
  The annotated queryset (views.py, lines 97 to 120).  \<^verbatim>\<open>tickets_sold\<close> is
  \<^verbatim>\<open>Count("tickets", distinct=True)\<close>, the number of distinct primary keys
  among the tickets joined to the session; \<^verbatim>\<open>hall_capacity\<close> and
  \<^verbatim>\<open>tickets_available\<close> are the two expressions.  The join with the hall
  drops a session whose hall row is missing.
\<close>

record MovieSession_annotated = MovieSession +
  tickets_sold :: int
  hall_capacity :: int
  tickets_available :: int

definition Count_tickets_distinct :: "db \<Rightarrow> MovieSession \<Rightarrow> int" where
  "Count_tickets_distinct st ms =
     int (length (remdups (map ticket_id
       (filter (\<lambda>t. movie_session t = session_id ms) (Ticket_objects st)))))"

definition annotate :: "db \<Rightarrow> MovieSession \<Rightarrow> MovieSession_annotated option" where
  "annotate st ms =
     (case get_hall st (cinema_hall ms) of
        None \<Rightarrow> None
      | Some hall \<Rightarrow>
          let sold = Count_tickets_distinct st ms;
              capacity = rows hall * seats_in_row hall
          in Some \<lparr>session_id = session_id ms, show_time = show_time ms, movie = movie ms,
                    cinema_hall = cinema_hall ms, tickets_sold = sold,
                    hall_capacity = capacity, tickets_available = capacity - sold\<rparr>)"

definition MovieSessionViewSet_queryset :: "db \<Rightarrow> MovieSession_annotated list" where
  "MovieSessionViewSet_queryset st = List.map_filter (annotate st) (MovieSession_objects st)"

text \<open>
  \<^verbatim>\<open>get_queryset\<close> (views.py, lines 122 to 135).  The two query parameters
  arrive parsed: \<^verbatim>\<open>None\<close> stands for a parameter that is absent or that
  \<^verbatim>\<open>parse_date\<close> or \<^verbatim>\<open>isdigit\<close> turns down.
\<close>

definition MovieSessionViewSet_get_queryset ::
  "db \<Rightarrow> int option \<Rightarrow> int option \<Rightarrow> MovieSession_annotated list" where
  "MovieSessionViewSet_get_queryset st date_value movie_param =
     (let qs = MovieSessionViewSet_queryset st;
          qs = (case date_value of None \<Rightarrow> qs
                | Some d \<Rightarrow> filter (\<lambda>s. fst (show_time s) = d) qs);
          qs = (case movie_param of None \<Rightarrow> qs
                | Some m \<Rightarrow> filter (\<lambda>s. movie s = m) qs)
      in qs)"

text \<open>\<^verbatim>\<open>get_taken_places\<close> (serializers.py, lines 137 to 143).\<close>

definition get_taken_places :: "db \<Rightarrow> int \<Rightarrow> (int \<times> int) list" where
  "get_taken_places st pk =
     sort (map (\<lambda>t. (row t, seat t))
       (filter (\<lambda>t. movie_session t = pk) (Ticket_objects st)))"

subsection \<open>OrderViewSet\<close>

text \<open>\<^verbatim>\<open>get_queryset\<close> (views.py, lines 154 to 164): the orders of the
  requesting user, the newest first.\<close>

definition OrderViewSet_get_queryset :: "db \<Rightarrow> int \<Rightarrow> Order list" where
  "OrderViewSet_get_queryset st usr =
     sort_key (\<lambda>x. - created_at x) (filter (\<lambda>x. user x = usr) (Order_objects st))"

text \<open>
  \<^verbatim>\<open>OrderListSerializer\<close> with its nested \<^verbatim>\<open>TicketListSerializer\<close> and
  \<^verbatim>\<open>TicketMovieSessionShortSerializer\<close>.  Modelled from the spec: the
  \<^verbatim>\<open>capacity\<close> property of \<^verbatim>\<open>CinemaHall\<close> is declared in
  \<^verbatim>\<open>cinema/models.py\<close>, which is not part of the sources; the spec gives
  the capacity of a hall as rows times seats in a row.
\<close>

definition capacity :: "CinemaHall \<Rightarrow> int" where
  "capacity hall = rows hall * seats_in_row hall"

type_synonym session_short = "int \<times> (int \<times> int) \<times> int \<times> string option \<times> int option"

type_synonym ticket_repr = "int \<times> int \<times> int \<times> session_short option"

type_synonym order_repr = "int \<times> ticket_repr list \<times> int"

definition TicketMovieSessionShortSerializer :: "db \<Rightarrow> MovieSession \<Rightarrow> session_short" where
  "TicketMovieSessionShortSerializer st ms =
     (session_id ms, show_time ms, movie ms,
      map_option hall_name (get_hall st (cinema_hall ms)),
      map_option capacity (get_hall st (cinema_hall ms)))"

definition TicketListSerializer :: "db \<Rightarrow> Ticket \<Rightarrow> ticket_repr" where
  "TicketListSerializer st t =
     (ticket_id t, row t, seat t,
      map_option (TicketMovieSessionShortSerializer st) (get_session st (movie_session t)))"

definition OrderListSerializer :: "db \<Rightarrow> Order \<Rightarrow> order_repr" where
  "OrderListSerializer st x =
     (order_id x,
      map (TicketListSerializer st) (filter (\<lambda>t. order t = order_id x) (Ticket_objects st)),
      created_at x)"

text \<open>
  \<^verbatim>\<open>OrderPagination\<close>: page number pagination with one order on a page.
  A page number below one or beyond the last page is answered with 404; the
  first page of an empty queryset exists and is empty.
\<close>

definition page_size :: int where
  "page_size = 1"

definition paginate_queryset :: "'a list \<Rightarrow> int \<Rightarrow> error + int \<times> 'a list" where
  "paginate_queryset qs number =
     (let count = int (length qs);
          num_pages = (max 1 count + page_size - 1) div page_size
      in if number < 1 \<or> number > num_pages then Inl Http404
         else Inr (count, take (nat page_size) (drop (nat ((number - 1) * page_size)) qs)))"

definition OrderViewSet_list :: "db \<Rightarrow> int \<Rightarrow> int \<Rightarrow> error + int \<times> order_repr list" where
  "OrderViewSet_list st usr number =
     (case paginate_queryset (OrderViewSet_get_queryset st usr) number of
        Inl e \<Rightarrow> Inl e
      | Inr (count, page) \<Rightarrow> Inr (count, map (OrderListSerializer st) page))"

text \<open>\<^verbatim>\<open>get_object\<close>: the row of \<^verbatim>\<open>get_queryset\<close> with the key of the URL, or 404.\<close>

definition OrderViewSet_get_object :: "db \<Rightarrow> int \<Rightarrow> int \<Rightarrow> error + Order" where
  "OrderViewSet_get_object st usr pk =
     (case find (\<lambda>x. order_id x = pk) (OrderViewSet_get_queryset st usr) of
        None \<Rightarrow> Inl Http404
      | Some x \<Rightarrow> Inr x)"

definition OrderViewSet_retrieve :: "db \<Rightarrow> int \<Rightarrow> int \<Rightarrow> error + order_repr" where
  "OrderViewSet_retrieve st usr pk =
     (case OrderViewSet_get_object st usr pk of
        Inl e \<Rightarrow> Inl e
      | Inr x \<Rightarrow> Inr (OrderListSerializer st x))"

text \<open>
  The \<^verbatim>\<open>create\<close> action of \<^verbatim>\<open>OrderViewSet\<close>: \<^verbatim>\<open>OrderCreateSerializer\<close>
  is chosen (views.py, lines 166 to 169), its \<^verbatim>\<open>is_valid\<close> runs, and only
  then \<^verbatim>\<open>save\<close> calls \<^verbatim>\<open>create\<close> with the user of the request.
\<close>

definition OrderViewSet_create ::
  "db \<Rightarrow> int \<Rightarrow> int \<Rightarrow> ticket_attrs list \<Rightarrow> (error + Order) \<times> db" where
  "OrderViewSet_create st usr now data =
     (case is_valid st data of
        Inl e \<Rightarrow> (Inl e, st)
      | Inr validated_data \<Rightarrow> OrderCreateSerializer_create usr now validated_data st)"

text \<open>
  \<^verbatim>\<open>OrderViewSet\<close> is a \<^verbatim>\<open>ModelViewSet\<close> (views.py, line 149), so it has
  the \<^verbatim>\<open>destroy\<close> action: the object is looked up in \<^verbatim>\<open>get_queryset\<close>
  and deleted.  Modelled from the spec: the \<^verbatim>\<open>on_delete\<close> rule of
  \<^verbatim>\<open>Ticket.order\<close> is declared in \<^verbatim>\<open>cinema/models.py\<close>, which is not
  part of the sources; by the spec an order owns its tickets, so they are
  deleted with it.
\<close>

definition Order_delete :: "db \<Rightarrow> Order \<Rightarrow> db" where
  "Order_delete st x =
     st\<lparr>Order_objects := filter (\<lambda>y. order_id y \<noteq> order_id x) (Order_objects st),
        Ticket_objects := filter (\<lambda>t. order t \<noteq> order_id x) (Ticket_objects st)\<rparr>"

definition OrderViewSet_destroy :: "db \<Rightarrow> int \<Rightarrow> int \<Rightarrow> (error + unit) \<times> db" where
  "OrderViewSet_destroy st usr pk =
     (case OrderViewSet_get_object st usr pk of
        Inl e \<Rightarrow> (Inl e, st)
      | Inr x \<Rightarrow> (Inr (), Order_delete st x))"

subsection \<open>CinemaHallViewSet\<close>

text \<open>
  \<^verbatim>\<open>CinemaHallViewSet\<close> is a \<^verbatim>\<open>ModelViewSet\<close> over
  \<^verbatim>\<open>CinemaHallSerializer\<close>, whose \<^verbatim>\<open>name\<close>, \<^verbatim>\<open>rows\<close> and
  \<^verbatim>\<open>seats_in_row\<close> are writable (views.py, lines 59 to 61; serializers.py,
  lines 39 to 44).  Its \<^verbatim>\<open>update\<close> action overwrites the three fields of the
  hall with the key of the URL.
\<close>

definition CinemaHallViewSet_update ::
  "db \<Rightarrow> int \<Rightarrow> string \<Rightarrow> int \<Rightarrow> int \<Rightarrow> (error + CinemaHall) \<times> db" where
  "CinemaHallViewSet_update st pk name r s =
     (case get_hall st pk of
        None \<Rightarrow> (Inl Http404, st)
      | Some hall \<Rightarrow>
          (Inr (hall\<lparr>hall_name := name, rows := r, seats_in_row := s\<rparr>),
           st\<lparr>CinemaHall_objects :=
                map (\<lambda>h. if hall_id h = pk
                         then h\<lparr>hall_name := name, rows := r, seats_in_row := s\<rparr> else h)
                    (CinemaHall_objects st)\<rparr>))"

section \<open>Requests\<close>

text \<open>
  One request at a time: the actions of the order endpoint, the two read
  actions of the session endpoint and the update of a hall.  The requests of
  the order endpoint carry the user of the request, \<^verbatim>\<open>None\<close> when it is
  anonymous; \<^verbatim>\<open>IsAuthenticated\<close> turns an anonymous request down before
  anything else runs.
\<close>

datatype request =
    OrderCreate "int option" int "ticket_attrs list"
  | OrderList "int option" int
  | OrderRetrieve "int option" int
  | OrderDestroy "int option" int
  | MovieSessionList "int option" "int option"
  | MovieSessionRetrieve int
  | CinemaHallUpdate int string int int

datatype response =
    Order_created Order
  | Order_page int "order_repr list"
  | Order_detail order_repr
  | No_content
  | Session_list "MovieSession_annotated list"
  | Session_detail MovieSession "(int \<times> int) list"
  | Hall_detail CinemaHall

definition respond :: "('a \<Rightarrow> response) \<Rightarrow> (error + 'a) \<Rightarrow> error + response" where
  "respond f r = (case r of Inl e \<Rightarrow> Inl e | Inr v \<Rightarrow> Inr (f v))"

fun step :: "db \<Rightarrow> request \<Rightarrow> (error + response) \<times> db" where
  "step st (OrderCreate None now data) = (Inl NotAuthenticated, st)"
| "step st (OrderCreate (Some usr) now data) =
     (let (r, st') = OrderViewSet_create st usr now data in (respond Order_created r, st'))"
| "step st (OrderList None number) = (Inl NotAuthenticated, st)"
| "step st (OrderList (Some usr) number) =
     (respond (\<lambda>(count, page). Order_page count page) (OrderViewSet_list st usr number), st)"
| "step st (OrderRetrieve None pk) = (Inl NotAuthenticated, st)"
| "step st (OrderRetrieve (Some usr) pk) =
     (respond Order_detail (OrderViewSet_retrieve st usr pk), st)"
| "step st (OrderDestroy None pk) = (Inl NotAuthenticated, st)"
| "step st (OrderDestroy (Some usr) pk) =
     (let (r, st') = OrderViewSet_destroy st usr pk in (respond (\<lambda>u. No_content) r, st'))"
| "step st (MovieSessionList date_value movie_param) =
     (Inr (Session_list (MovieSessionViewSet_get_queryset st date_value movie_param)), st)"
| "step st (MovieSessionRetrieve pk) =
     (case get_session st pk of
        None \<Rightarrow> (Inl Http404, st)
      | Some ms \<Rightarrow> (Inr (Session_detail ms (get_taken_places st pk)), st))"
| "step st (CinemaHallUpdate pk name r s) =
     (let (res, st') = CinemaHallViewSet_update st pk name r s in (respond Hall_detail res, st'))"

text \<open>The state after a sequence of requests.\<close>

definition run :: "db \<Rightarrow> request list \<Rightarrow> db" where
  "run st reqs = foldl (\<lambda>s req. snd (step s req)) st reqs"

section \<open>Invariants and auxiliary notions\<close>

text \<open>The key that \<^verbatim>\<open>validate_tickets\<close> builds for a submitted triple.\<close>

definition key_of :: "ticket_attrs \<Rightarrow> int \<times> int \<times> int" where
  "key_of a = (movie_session a, row a, seat a)"

text \<open>
  A store with consistent keys: primary keys are unique within each table and
  every foreign key names a row that exists.
\<close>

definition integrity :: "db \<Rightarrow> bool" where
  "integrity st =
     (distinct (map hall_id (CinemaHall_objects st)) \<and>
      distinct (map session_id (MovieSession_objects st)) \<and>
      distinct (map order_id (Order_objects st)) \<and>
      distinct (map ticket_id (Ticket_objects st)) \<and>
      (\<forall>ms\<in>set (MovieSession_objects st).
         cinema_hall ms \<in> set (map hall_id (CinemaHall_objects st))) \<and>
      (\<forall>t\<in>set (Ticket_objects st).
         movie_session t \<in> set (map session_id (MovieSession_objects st)) \<and>
         order t \<in> set (map order_id (Order_objects st))))"

text \<open>A ticket row without its primary key.\<close>

definition fields_of :: "Ticket \<Rightarrow> Ticket_unsaved" where
  "fields_of t = \<lparr>row = row t, seat = seat t, movie_session = movie_session t, order = order t\<rparr>"

text \<open>The key of a row of the ticket table: its session, row and seat.\<close>

definition seat_key :: "Ticket \<Rightarrow> int \<times> int \<times> int" where
  "seat_key t = (movie_session t, row t, seat t)"

text \<open>An unsaved ticket with the primary key it is stored under.\<close>

definition saved :: "Ticket_unsaved \<Rightarrow> int \<Rightarrow> Ticket" where
  "saved t pk = \<lparr>row = row t, seat = seat t, movie_session = movie_session t,
                 order = order t, ticket_id = pk\<rparr>"

text \<open>
  What a successful order creation leaves behind: one more order, and after
  the old tickets one new ticket for each submitted triple, in order, each
  pointing to the new order.  Halls and sessions are as before.
\<close>

definition created :: "db \<Rightarrow> Order \<Rightarrow> ticket_attrs list \<Rightarrow> db \<Rightarrow> bool" where
  "created st ord data st' =
     (CinemaHall_objects st' = CinemaHall_objects st \<and>
      MovieSession_objects st' = MovieSession_objects st \<and>
      Order_objects st' = Order_objects st @ [ord] \<and>
      (\<exists>new. Ticket_objects st' = Ticket_objects st @ new \<and>
             map fields_of new = map (new_ticket ord) data))"

text \<open>The seat invariant: no two tickets share session, row and seat.\<close>

definition seats_unique :: "db \<Rightarrow> bool" where
  "seats_unique st = distinct (map seat_key (Ticket_objects st))"

text \<open>
  A store for concrete instances: one hall of two by two seats, one session
  in it, one order of user 1 with the ticket for seat (1, 1).
\<close>

definition demo_db :: db where
  "demo_db =
     \<lparr>CinemaHall_objects = [\<lparr>hall_id = 1, hall_name = ''Blue'', rows = 2, seats_in_row = 2\<rparr>],
      MovieSession_objects = [\<lparr>session_id = 1, show_time = (0, 0), movie = 1, cinema_hall = 1\<rparr>],
      Order_objects = [\<lparr>order_id = 1, created_at = 0, user = 1\<rparr>],
      Ticket_objects = [\<lparr>row = 1, seat = 1, movie_session = 1, order = 1, ticket_id = 1\<rparr>]\<rparr>"





text \<open>The tickets that point to a session.\<close>

definition tickets_of :: "db \<Rightarrow> MovieSession \<Rightarrow> Ticket list" where
  "tickets_of st ms = filter (\<lambda>t. movie_session t = session_id ms) (Ticket_objects st)"



section \<open>Properties\<close>

subsection \<open>Evaluation on concrete stores\<close>

lemmas eval_defs = demo_db_def integrity_def get_hall_def get_session_def get_order_def
  OrderViewSet_create_def is_valid_def run_child_validation_def TicketCreateSerializer_validate_def
  exists_qs_def Ticket_objects_filter_def validate_tickets_def OrderCreateSerializer_create_def
  atomic_def create_body_def Order_objects_create_def bulk_create_def fk_ok_def new_ticket_def
  next_pk_def Let_def

lemmas run_defs = run_def OrderViewSet_destroy_def OrderViewSet_get_object_def
  OrderViewSet_get_queryset_def Order_delete_def CinemaHallViewSet_update_def respond_def
  MovieSessionViewSet_queryset_def List.map_filter_def annotate_def Count_tickets_distinct_def
  insert_all.simps

lemma demo_integrity: "integrity demo_db"
  by (simp add: demo_db_def integrity_def)

subsection \<open>Keys and validation\<close>

lemma fold_max_ge: "a \<le> fold max xs (a::int)"
proof (induction xs arbitrary: a)
  case Nil show ?case by simp
next
  case (Cons x xs)
  have "a \<le> max x a" by simp
  also have "\<dots> \<le> fold max xs (max x a)" by (rule Cons.IH)
  finally show ?case by simp
qed

lemma fold_max_mem: "x \<in> set xs \<Longrightarrow> x \<le> fold max xs (a::int)"
proof (induction xs arbitrary: a)
  case Nil then show ?case by simp
next
  case (Cons y ys)
  show ?case
  proof (cases "x = y")
    case True
    have "x \<le> max y a" using True by simp
    also have "\<dots> \<le> fold max ys (max y a)" by (rule fold_max_ge)
    finally show ?thesis by simp
  next
    case False
    with Cons.prems have "x \<in> set ys" by simp
    then show ?thesis using Cons.IH by simp
  qed
qed

lemma next_pk_fresh: "x \<in> set pks \<Longrightarrow> x < next_pk pks"
  using fold_max_mem [of x pks 0] by (simp add: next_pk_def)

lemma next_pk_notin: "next_pk pks \<notin> set pks"
  using next_pk_fresh [of "next_pk pks" pks] by auto

lemma find_Some_mem: "find P xs = Some x \<Longrightarrow> x \<in> set xs \<and> P x"
  by (induction xs) (auto split: if_splits)

lemma run_child_detail_nonempty:
  "run_child_validation st item = Inl (ValidationError d) \<Longrightarrow> d \<noteq> Dict []"
  by (auto simp: run_child_validation_def TicketCreateSerializer_validate_def
      split: option.splits if_splits)

lemma run_child_Inr:
  "run_child_validation st item = Inr v \<Longrightarrow>
     v = item \<and>
     (\<exists>ms hall. get_session st (movie_session item) = Some ms \<and>
        get_hall st (cinema_hall ms) = Some hall \<and>
        1 \<le> row item \<and> row item \<le> rows hall \<and>
        1 \<le> seat item \<and> seat item \<le> seats_in_row hall \<and>
        Ticket_objects_filter st (session_id ms) (row item) (seat item) = [])"
  by (auto simp: run_child_validation_def TicketCreateSerializer_validate_def exists_qs_def
      split: option.splits if_splits)

lemma ltiv_errors_stick:
  "list_ex (\<lambda>d. d \<noteq> Dict []) errors \<Longrightarrow> list_to_internal_value st data errors ret \<noteq> Inr v"
proof (induction data arbitrary: errors ret)
  case Nil then show ?case by simp
next
  case (Cons item data)
  show ?case
  proof (cases "run_child_validation st item")
    case (Inr w)
    then show ?thesis using Cons.IH [of "errors @ [Dict []]" "ret @ [w]"] Cons.prems by simp
  next
    case (Inl e)
    then show ?thesis using Cons.IH [of "errors @ [d]" ret for d] Cons.prems
      by (cases e) simp_all
  qed
qed

lemma ltiv_Inr:
  "list_to_internal_value st data errors ret = Inr v \<Longrightarrow>
     v = ret @ data \<and> (\<forall>item\<in>set data. run_child_validation st item = Inr item)"
proof (induction data arbitrary: errors ret)
  case Nil then show ?case by (simp split: if_splits)
next
  case (Cons item data)
  show ?case
  proof (cases "run_child_validation st item")
    case (Inr w)
    then have w: "w = item" using run_child_Inr by blast
    from Cons.prems Inr have "list_to_internal_value st data (errors @ [Dict []]) (ret @ [w]) = Inr v"
      by simp
    from Cons.IH [OF this] show ?thesis using Inr w by simp
  next
    case (Inl e)
    show ?thesis
    proof (cases e)
      case (ValidationError d)
      then have "d \<noteq> Dict []" using Inl run_child_detail_nonempty by blast
      then have "list_ex (\<lambda>d. d \<noteq> Dict []) (errors @ [d])" by simp
      from ltiv_errors_stick [OF this] Cons.prems Inl ValidationError show ?thesis by simp
    qed (use Cons.prems Inl in simp_all)
  qed
qed

lemma ltiv_Inl:
  "list_to_internal_value st data errors ret = Inl e \<Longrightarrow>
   (\<forall>item\<in>set data. \<forall>e'. run_child_validation st item = Inl e' \<longrightarrow> is_validation_error e') \<Longrightarrow>
   is_validation_error e"
proof (induction data arbitrary: errors ret)
  case Nil then show ?case by (auto split: if_splits)
next
  case (Cons item data)
  show ?case
  proof (cases "run_child_validation st item")
    case (Inr w)
    then show ?thesis using Cons.IH [of "errors @ [Dict []]" "ret @ [w]"] Cons.prems by simp
  next
    case (Inl e')
    then have "is_validation_error e'" using Cons.prems(2) by simp
    then obtain d where "e' = ValidationError d" by (cases e') simp_all
    then show ?thesis using Inl Cons.IH [of "errors @ [d]" ret] Cons.prems by simp
  qed
qed

lemma ltiv_all_valid:
  "\<forall>item\<in>set data. run_child_validation st item = Inr item \<Longrightarrow>
   \<not> list_ex (\<lambda>d. d \<noteq> Dict []) errors \<Longrightarrow>
   list_to_internal_value st data errors ret = Inr (ret @ data)"
  by (induction data arbitrary: errors ret) simp_all

lemma loop_Inr_iff:
  "validate_tickets_loop seen items = Inr u \<longleftrightarrow>
     distinct (map key_of items) \<and> key_of ` set items \<inter> seen = {}"
proof (induction items arbitrary: seen)
  case Nil
  show ?case by simp
next
  case (Cons a items)
  have step: "validate_tickets_loop seen (a # items) =
      (if key_of a \<in> seen then Inl (ValidationError (Msg ''Duplicate tickets in request.''))
       else validate_tickets_loop (insert (key_of a) seen) items)"
    by (simp add: key_of_def)
  show ?case unfolding step using Cons.IH [of "insert (key_of a) seen"] by auto
qed

lemma loop_Inl:
  "validate_tickets_loop seen items = Inl e \<Longrightarrow> is_validation_error e"
  by (induction items arbitrary: seen) (auto simp: Let_def split: if_splits)

lemma validate_tickets_Inr:
  "validate_tickets tickets = Inr v \<longleftrightarrow>
     v = tickets \<and> distinct (map key_of tickets)"
  using loop_Inr_iff [of "{}" tickets]
  by (auto simp: validate_tickets_def split: sum.splits)

lemma validate_tickets_Inl:
  "validate_tickets tickets = Inl e \<Longrightarrow> is_validation_error e"
  using loop_Inl [of "{}" tickets e]
  by (auto simp: validate_tickets_def split: sum.splits)

lemma is_valid_Inr:
  "is_valid st data = Inr v \<Longrightarrow>
     v = data \<and> distinct (map key_of data) \<and>
     (\<forall>item\<in>set data. run_child_validation st item = Inr item)"
  using ltiv_Inr [of st data "[]" "[]"]
  by (auto simp: is_valid_def validate_tickets_Inr split: sum.splits)

lemma is_valid_Inl:
  "is_valid st data = Inl e \<Longrightarrow>
   (\<forall>item\<in>set data. \<forall>e'. run_child_validation st item = Inl e' \<longrightarrow> is_validation_error e') \<Longrightarrow>
   is_validation_error e"
  using ltiv_Inl [of st data "[]" "[]" e] validate_tickets_Inl
  by (auto simp: is_valid_def split: sum.splits)

lemma is_valid_all_valid:
  "\<forall>item\<in>set data. run_child_validation st item = Inr item \<Longrightarrow>
   distinct (map key_of data) \<Longrightarrow>
   is_valid st data = Inr data"
  using ltiv_all_valid [of data st "[]" "[]"]
  by (simp add: is_valid_def validate_tickets_Inr)

lemma get_hall_None: "get_hall st k = None \<longleftrightarrow> k \<notin> hall_id ` set (CinemaHall_objects st)"
  by (auto simp: get_hall_def find_None_iff)


lemma get_order_None: "get_order st k = None \<longleftrightarrow> k \<notin> order_id ` set (Order_objects st)"
  by (auto simp: get_order_def find_None_iff)

lemma get_hall_Some_ex: "(\<exists>h. get_hall st k = Some h) \<longleftrightarrow> k \<in> hall_id ` set (CinemaHall_objects st)"
  using get_hall_None [of st k] by (cases "get_hall st k") simp_all


lemma get_order_Some_ex: "(\<exists>x. get_order st k = Some x) \<longleftrightarrow> k \<in> order_id ` set (Order_objects st)"
  using get_order_None [of st k] by (cases "get_order st k") simp_all

lemma run_child_no_crash:
  assumes "integrity st" and "run_child_validation st item = Inl e"
  shows "is_validation_error e"
proof (cases "get_session st (movie_session item)")
  case None
  with assms(2) show ?thesis by (auto simp: run_child_validation_def)
next
  case (Some ms)
  then have "ms \<in> set (MovieSession_objects st)"
    using find_Some_mem by (fastforce simp: get_session_def)
  with assms(1) have "cinema_hall ms \<in> hall_id ` set (CinemaHall_objects st)"
    by (simp add: integrity_def)
  then obtain hall where "get_hall st (cinema_hall ms) = Some hall"
    unfolding get_hall_Some_ex [symmetric] by blast
  with Some assms(2) show ?thesis
    by (auto simp: run_child_validation_def TicketCreateSerializer_validate_def split: if_splits)
qed

lemma create_rejects:
  assumes "integrity st" and "is_valid st data \<noteq> Inr data"
  shows "\<exists>e. OrderViewSet_create st usr now data = (Inl e, st) \<and> is_validation_error e"
proof (cases "is_valid st data")
  case (Inl e)
  have "is_validation_error e"
    by (rule is_valid_Inl [OF Inl]) (use assms(1) run_child_no_crash in blast)
  with Inl show ?thesis by (simp add: OrderViewSet_create_def)
next
  case (Inr v)
  with assms(2) is_valid_Inr show ?thesis by blast
qed

subsection \<open>Creating an order\<close>

lemma fields_of_saved: "fields_of (saved t pk) = t"
  by (simp add: fields_of_def saved_def)

lemma insert_all_Cons:
  "insert_all table (t # ts) = insert_all (table @ [saved t (next_pk (map ticket_id table))]) ts"
  by (simp add: saved_def)

lemma insert_all_append:
  "\<exists>new. insert_all table ts = table @ new \<and> map fields_of new = ts"
proof (induction ts arbitrary: table)
  case Nil
  show ?case by simp
next
  case (Cons t ts)
  define r where "r = saved t (next_pk (map ticket_id table))"
  from Cons.IH [of "table @ [r]"]
  obtain new where new: "insert_all (table @ [r]) ts = (table @ [r]) @ new"
    "map fields_of new = ts" by (elim exE conjE)
  have "insert_all table (t # ts) = table @ (r # new)"
    unfolding insert_all_Cons r_def [symmetric] using new(1) by simp
  moreover have "map fields_of (r # new) = t # ts"
    using new(2) by (simp add: r_def fields_of_saved)
  ultimately show ?case by (intro exI [of _ "r # new"] conjI)
qed

lemma insert_all_distinct:
  "distinct (map ticket_id table) \<Longrightarrow> distinct (map ticket_id (insert_all table ts))"
proof (induction ts arbitrary: table)
  case Nil
  then show ?case by simp
next
  case (Cons t ts)
  have "next_pk (map ticket_id table) \<notin> set (map ticket_id table)" by (rule next_pk_notin)
  with Cons.prems have "distinct (map ticket_id (table @ [saved t (next_pk (map ticket_id table))]))"
    by (simp add: saved_def)
  from Cons.IH [OF this] show ?case unfolding insert_all_Cons .
qed

lemma get_order_after_create:
  "Order_objects_create st usr now = (ord, st1) \<Longrightarrow>
     get_order st1 (order_id ord) \<noteq> None \<and>
     Order_objects st1 = Order_objects st @ [ord] \<and>
     Ticket_objects st1 = Ticket_objects st \<and>
     MovieSession_objects st1 = MovieSession_objects st \<and>
     CinemaHall_objects st1 = CinemaHall_objects st \<and>
     order_id ord = next_pk (map order_id (Order_objects st)) \<and>
     user ord = usr \<and> created_at ord = now"
  by (auto simp: Order_objects_create_def Let_def get_order_def find_None_iff)

lemma create_body_Inr:
  assumes "create_body usr now data st = (Inr ord, st2)"
  shows "created st ord data st2 \<and>
       order_id ord = next_pk (map order_id (Order_objects st)) \<and> user ord = usr \<and>
       created_at ord = now \<and>
       (distinct (map ticket_id (Ticket_objects st)) \<longrightarrow> distinct (map ticket_id (Ticket_objects st2)))"
proof -
  obtain ord1 st1 where c: "Order_objects_create st usr now = (ord1, st1)"
    by (cases "Order_objects_create st usr now")
  note f = get_order_after_create [OF c]
  from assms c have b: "bulk_create st1 (map (new_ticket ord1) data) = Inr st2" and o: "ord = ord1"
    by (auto simp: create_body_def split: sum.splits)
  from b have t: "Ticket_objects st2 = insert_all (Ticket_objects st) (map (new_ticket ord) data)"
    and rest: "Order_objects st2 = Order_objects st1" "MovieSession_objects st2 = MovieSession_objects st1"
      "CinemaHall_objects st2 = CinemaHall_objects st1"
    using f o by (auto simp: bulk_create_def split: if_splits)
  show ?thesis using insert_all_append [of "Ticket_objects st" "map (new_ticket ord) data"]
      insert_all_distinct [of "Ticket_objects st" "map (new_ticket ord) data"] t rest f o
    by (simp add: created_def)
qed

lemma atomic_Inl: "atomic body st = (Inl e, st') \<Longrightarrow> st' = st"
  by (auto simp: atomic_def split: prod.splits sum.splits)

lemma atomic_Inr: "atomic body st = (Inr v, st') \<Longrightarrow> body st = (Inr v, st')"
  by (auto simp: atomic_def split: prod.splits sum.splits)

lemma serializer_create_Inl:
  "OrderCreateSerializer_create usr now data st = (Inl e, st') \<Longrightarrow> st' = st"
  unfolding OrderCreateSerializer_create_def by (rule atomic_Inl)

lemma serializer_create_Inr:
  "OrderCreateSerializer_create usr now data st = (Inr ord, st') \<Longrightarrow>
     create_body usr now data st = (Inr ord, st')"
  unfolding OrderCreateSerializer_create_def by (rule atomic_Inr)

lemma view_create_Inl:
  "OrderViewSet_create st usr now data = (Inl e, st') \<Longrightarrow> st' = st"
  by (auto simp: OrderViewSet_create_def split: sum.splits dest: serializer_create_Inl)

lemma view_create_Inr:
  "OrderViewSet_create st usr now data = (Inr ord, st') \<Longrightarrow>
     is_valid st data = Inr data \<and> create_body usr now data st = (Inr ord, st')"
  by (auto simp: OrderViewSet_create_def split: sum.splits
      dest: serializer_create_Inr is_valid_Inr)

text \<open>Validated data always gets through \<^verbatim>\<open>bulk_create\<close>: a valid request succeeds.\<close>

lemma view_create_succeeds:
  assumes "is_valid st data = Inr data"
  shows "\<exists>ord st'. OrderViewSet_create st usr now data = (Inr ord, st')"
proof -
  obtain ord st1 where c: "Order_objects_create st usr now = (ord, st1)"
    by (cases "Order_objects_create st usr now")
  note f = get_order_after_create [OF c]
  have "fk_ok st1 (new_ticket ord item)" if "item \<in> set data" for item
  proof -
    from is_valid_Inr [OF assms] that have "run_child_validation st item = Inr item" by blast
    from run_child_Inr [OF this] have "get_session st (movie_session item) \<noteq> None" by auto
    then have "get_session st1 (movie_session item) \<noteq> None" using f by (simp add: get_session_def)
    moreover have "get_order st1 (order_id ord) \<noteq> None" using f by blast
    ultimately show ?thesis by (simp add: fk_ok_def new_ticket_def)
  qed
  then have "list_all (fk_ok st1) (map (new_ticket ord) data)" by (simp add: list_all_iff)
  then have b: "bulk_create st1 (map (new_ticket ord) data) =
      Inr (st1\<lparr>Ticket_objects := insert_all (Ticket_objects st1) (map (new_ticket ord) data)\<rparr>)"
    by (simp add: bulk_create_def)
  have "create_body usr now data st =
      (Inr ord, st1\<lparr>Ticket_objects := insert_all (Ticket_objects st1) (map (new_ticket ord) data)\<rparr>)"
    unfolding create_body_def c Let_def prod.case b by simp
  then have "OrderCreateSerializer_create usr now data st =
      (Inr ord, st1\<lparr>Ticket_objects := insert_all (Ticket_objects st1) (map (new_ticket ord) data)\<rparr>)"
    by (simp add: OrderCreateSerializer_create_def atomic_def)
  then show ?thesis using assms by (simp add: OrderViewSet_create_def)
qed

subsection \<open>Rejected and accepted requests\<close>

text \<open>
  Claim C2.  In a store with consistent keys, an order request that contains a
  triple whose row is below 1 or above the rows of the hall of its session, or
  whose seat is below 1 or above the seats in a row of that hall, is turned
  down with a validation error, and the store stays as it was: no order and
  no ticket is created.
\<close>

theorem out_of_range_rejected:
  assumes "integrity st" and "item \<in> set data"
    and "get_session st (movie_session item) = Some ms"
    and "get_hall st (cinema_hall ms) = Some hall"
    and "row item < 1 \<or> row item > rows hall \<or> seat item < 1 \<or> seat item > seats_in_row hall"
  shows "\<exists>e. OrderViewSet_create st usr now data = (Inl e, st) \<and> is_validation_error e"
proof -
  have "run_child_validation st item \<noteq> Inr item"
    using run_child_Inr [of st item item] assms(3-5) by auto
  then have "is_valid st data \<noteq> Inr data"
    using is_valid_Inr [of st data data] assms(2) by blast
  with assms(1) show ?thesis by (rule create_rejects)
qed

text \<open>
  An instance of C2: row 3 in a hall of two rows.
\<close>

theorem out_of_range_rejected_witness:
  "integrity demo_db \<and>
   get_session demo_db 1 = Some \<lparr>session_id = 1, show_time = (0, 0), movie = 1, cinema_hall = 1\<rparr> \<and>
   get_hall demo_db 1 = Some \<lparr>hall_id = 1, hall_name = ''Blue'', rows = 2, seats_in_row = 2\<rparr> \<and>
   (\<exists>e. OrderViewSet_create demo_db 2 5
          [\<lparr>row = 2, seat = 2, movie_session = 1\<rparr>, \<lparr>row = 3, seat = 1, movie_session = 1\<rparr>]
        = (Inl e, demo_db) \<and> is_validation_error e)"
proof -
  have s: "get_session demo_db 1 =
      Some \<lparr>session_id = 1, show_time = (0, 0), movie = 1, cinema_hall = 1\<rparr>"
    by (simp add: demo_db_def get_session_def)
  have h: "get_hall demo_db 1 =
      Some \<lparr>hall_id = 1, hall_name = ''Blue'', rows = 2, seats_in_row = 2\<rparr>"
    by (simp add: demo_db_def get_hall_def)
  show ?thesis
    using out_of_range_rejected [of demo_db "\<lparr>row = 3, seat = 1, movie_session = 1\<rparr>"
        "[\<lparr>row = 2, seat = 2, movie_session = 1\<rparr>, \<lparr>row = 3, seat = 1, movie_session = 1\<rparr>]"
        "\<lparr>session_id = 1, show_time = (0, 0), movie = 1, cinema_hall = 1\<rparr>"
        "\<lparr>hall_id = 1, hall_name = ''Blue'', rows = 2, seats_in_row = 2\<rparr>" 2 5]
      demo_integrity s h
    by simp
qed

text \<open>
  Claim C3.  In a store with consistent keys, an order request that contains a
  triple for which the ticket table already has a ticket with that session,
  row and seat is turned down with a validation error, and the store stays
  as it was.
\<close>

theorem taken_seat_rejected:
  assumes "integrity st" and "item \<in> set data" and "t \<in> set (Ticket_objects st)"
    and "movie_session t = movie_session item" and "row t = row item" and "seat t = seat item"
  shows "\<exists>e. OrderViewSet_create st usr now data = (Inl e, st) \<and> is_validation_error e"
proof -
  have "run_child_validation st item \<noteq> Inr item"
  proof
    assume "run_child_validation st item = Inr item"
    from run_child_Inr [OF this] obtain ms where
      ms: "get_session st (movie_session item) = Some ms" and
      free: "Ticket_objects_filter st (session_id ms) (row item) (seat item) = []"
      by blast
    from ms have "session_id ms = movie_session item"
      using find_Some_mem by (fastforce simp: get_session_def)
    with assms(3-6) have "t \<in> set (Ticket_objects_filter st (session_id ms) (row item) (seat item))"
      by (simp add: Ticket_objects_filter_def)
    with free show False by simp
  qed
  then have "is_valid st data \<noteq> Inr data"
    using is_valid_Inr [of st data data] assms(2) by blast
  with assms(1) show ?thesis by (rule create_rejects)
qed

text \<open>
  An instance of C3: seat (1, 1) of session 1 is sold already.
\<close>

theorem taken_seat_rejected_witness:
  "integrity demo_db \<and>
   \<lparr>row = 1, seat = 1, movie_session = 1, order = 1, ticket_id = 1\<rparr> \<in> set (Ticket_objects demo_db) \<and>
   (\<exists>e. OrderViewSet_create demo_db 2 5
          [\<lparr>row = 2, seat = 2, movie_session = 1\<rparr>, \<lparr>row = 1, seat = 1, movie_session = 1\<rparr>]
        = (Inl e, demo_db) \<and> is_validation_error e)"
proof -
  have t: "\<lparr>row = 1, seat = 1, movie_session = 1, order = 1, ticket_id = 1\<rparr>
      \<in> set (Ticket_objects demo_db)"
    by (simp add: demo_db_def)
  show ?thesis
    using taken_seat_rejected [of demo_db "\<lparr>row = 1, seat = 1, movie_session = 1\<rparr>"
        "[\<lparr>row = 2, seat = 2, movie_session = 1\<rparr>, \<lparr>row = 1, seat = 1, movie_session = 1\<rparr>]"
        "\<lparr>row = 1, seat = 1, movie_session = 1, order = 1, ticket_id = 1\<rparr>" 2 5]
      demo_integrity t
    by simp
qed

text \<open>
  Claim C4.  In a store with consistent keys, an order request whose ticket
  list holds the same (session, row, seat) triple more than once is turned
  down with a validation error, and the store stays as it was.
\<close>

theorem duplicate_in_request_rejected:
  assumes "integrity st" and "\<not> distinct data"
  shows "\<exists>e. OrderViewSet_create st usr now data = (Inl e, st) \<and> is_validation_error e"
proof -
  from assms(2) have "\<not> distinct (map key_of data)" by (simp add: distinct_map)
  then have "is_valid st data \<noteq> Inr data"
    using is_valid_Inr [of st data data] by blast
  with assms(1) show ?thesis by (rule create_rejects)
qed

text \<open>
  An instance of C4: the same free seat twice in one request.
\<close>

theorem duplicate_in_request_rejected_witness:
  "integrity demo_db \<and>
   \<not> distinct [\<lparr>row = 2, seat = 2, movie_session = 1\<rparr>, \<lparr>row = 2, seat = 2, movie_session = 1\<rparr>] \<and>
   (\<exists>e. OrderViewSet_create demo_db 2 5
          [\<lparr>row = 2, seat = 2, movie_session = 1\<rparr>, \<lparr>row = 2, seat = 2, movie_session = 1\<rparr>]
        = (Inl e, demo_db) \<and> is_validation_error e)"
  using duplicate_in_request_rejected [of demo_db
      "[\<lparr>row = 2, seat = 2, movie_session = 1\<rparr>, \<lparr>row = 2, seat = 2, movie_session = 1\<rparr>]" 2 5]
    demo_integrity
  by simp

text \<open>
  Claim C5.  Order creation is all or nothing.  For every request, the
  \<^verbatim>\<open>create\<close> action either fails and leaves the store as it was, or
  returns one new order and the store has that order appended and, for every
  submitted triple, in order, one new ticket with that row, seat and session
  that points to the new order.  The same holds for the \<^verbatim>\<open>create\<close> method
  of the serializer on any data, valid or not.
\<close>

theorem order_creation_all_or_nothing:
  "((\<exists>e. OrderViewSet_create st usr now data = (Inl e, st)) \<or>
    (\<exists>ord st'. OrderViewSet_create st usr now data = (Inr ord, st') \<and> created st ord data st'))
   \<and>
   ((\<exists>e. OrderCreateSerializer_create usr now data st = (Inl e, st)) \<or>
    (\<exists>ord st'. OrderCreateSerializer_create usr now data st = (Inr ord, st') \<and>
       created st ord data st'))"
proof
  obtain r st' where v: "OrderViewSet_create st usr now data = (r, st')"
    by (cases "OrderViewSet_create st usr now data")
  show "(\<exists>e. OrderViewSet_create st usr now data = (Inl e, st)) \<or>
    (\<exists>ord st'. OrderViewSet_create st usr now data = (Inr ord, st') \<and> created st ord data st')"
  proof (cases r)
    case (Inl e)
    with v view_create_Inl [of st usr now data e st'] show ?thesis by auto
  next
    case (Inr ord)
    with v view_create_Inr [of st usr now data ord st'] create_body_Inr [of usr now data st ord st']
    show ?thesis by simp
  qed
next
  obtain r st' where v: "OrderCreateSerializer_create usr now data st = (r, st')"
    by (cases "OrderCreateSerializer_create usr now data st")
  show "(\<exists>e. OrderCreateSerializer_create usr now data st = (Inl e, st)) \<or>
    (\<exists>ord st'. OrderCreateSerializer_create usr now data st = (Inr ord, st') \<and>
       created st ord data st')"
  proof (cases r)
    case (Inl e)
    with v serializer_create_Inl [of usr now data st e st'] show ?thesis by auto
  next
    case (Inr ord)
    with v serializer_create_Inr [of usr now data st ord st']
      create_body_Inr [of usr now data st ord st']
    show ?thesis by simp
  qed
qed

text \<open>
  Instances of C5: a request that succeeds and one that is turned down.
\<close>

theorem order_creation_all_or_nothing_witness:
  "(\<exists>ord st'. OrderViewSet_create demo_db 2 5 [\<lparr>row = 2, seat = 1, movie_session = 1\<rparr>]
       = (Inr ord, st') \<and>
     created demo_db ord [\<lparr>row = 2, seat = 1, movie_session = 1\<rparr>] st') \<and>
   OrderViewSet_create demo_db 2 5 [\<lparr>row = 1, seat = 1, movie_session = 1\<rparr>]
       = (Inl (ValidationError (Items [Msg ''This place is already taken.''])), demo_db)"
proof
  have "OrderViewSet_create demo_db 2 5 [\<lparr>row = 2, seat = 1, movie_session = 1\<rparr>] \<noteq> (Inl e, demo_db)"
    for e by (simp add: eval_defs)
  then show "\<exists>ord st'. OrderViewSet_create demo_db 2 5 [\<lparr>row = 2, seat = 1, movie_session = 1\<rparr>]
       = (Inr ord, st') \<and>
     created demo_db ord [\<lparr>row = 2, seat = 1, movie_session = 1\<rparr>] st'"
    using order_creation_all_or_nothing
      [of demo_db 2 5 "[\<lparr>row = 2, seat = 1, movie_session = 1\<rparr>]"]
    by blast
next
  show "OrderViewSet_create demo_db 2 5 [\<lparr>row = 1, seat = 1, movie_session = 1\<rparr>]
       = (Inl (ValidationError (Items [Msg ''This place is already taken.''])), demo_db)"
    by (simp add: eval_defs)
qed

lemma created_new_tickets:
  assumes "Ticket_objects st' = Ticket_objects st @ new"
    and "map fields_of new = map (new_ticket ord) data"
  shows "length new = length data"
    and "\<forall>t\<in>set new. order t = order_id ord"
    and "map seat_key new = map key_of data"
proof -
  have "length (map fields_of new) = length (map (new_ticket ord) data)"
    using assms(2) by simp
  then show len: "length new = length data" by simp
  have nth: "fields_of (new ! i) = new_ticket ord (data ! i)" if "i < length new" for i
  proof -
    have "map fields_of new ! i = map (new_ticket ord) data ! i" using assms(2) by simp
    then show ?thesis using that len by simp
  qed
  show "\<forall>t\<in>set new. order t = order_id ord"
  proof
    fix t assume "t \<in> set new"
    then obtain i where i: "i < length new" "new ! i = t" by (auto simp: in_set_conv_nth)
    from nth [OF i(1)] i(2) have "order (fields_of t) = order (new_ticket ord (data ! i))" by simp
    then show "order t = order_id ord" by (simp add: fields_of_def new_ticket_def)
  qed
  have "map (\<lambda>u. (movie_session u, row u, seat u)) (map fields_of new)
      = map (\<lambda>u. (movie_session u, row u, seat u)) (map (new_ticket ord) data)"
    using assms(2) by simp
  then show "map seat_key new = map key_of data"
    by (simp add: comp_def fields_of_def new_ticket_def seat_key_def [abs_def] key_of_def [abs_def])
qed

text \<open>
  Claim C6.  When order creation succeeds in a store with consistent keys, the
  number of tickets that point to the new order equals the number of
  submitted triples.
\<close>

theorem successful_order_ticket_count:
  assumes "integrity st" and "OrderViewSet_create st usr now data = (Inr ord, st')"
  shows "length (filter (\<lambda>t. order t = order_id ord) (Ticket_objects st')) = length data"
proof -
  from view_create_Inr [OF assms(2)] have "create_body usr now data st = (Inr ord, st')" by simp
  from create_body_Inr [OF this] obtain new where
    t: "Ticket_objects st' = Ticket_objects st @ new" and
    m: "map fields_of new = map (new_ticket ord) data" and
    pk: "order_id ord = next_pk (map order_id (Order_objects st))"
    by (auto simp: created_def)
  have old: "order u \<noteq> order_id ord" if "u \<in> set (Ticket_objects st)" for u
  proof -
    from assms(1) that have "order u \<in> set (map order_id (Order_objects st))"
      by (simp add: integrity_def)
    from next_pk_fresh [OF this] show ?thesis using pk by simp
  qed
  have "filter (\<lambda>t. order t = order_id ord) (Ticket_objects st) = []"
    using old by (simp add: filter_empty_conv)
  moreover have "filter (\<lambda>t. order t = order_id ord) new = new"
    using created_new_tickets(2) [OF t m] by (simp add: filter_id_conv)
  ultimately show ?thesis using t created_new_tickets(1) [OF t m] by simp
qed

text \<open>
  An instance of C6: two triples, two tickets of the new order.
\<close>

theorem successful_order_ticket_count_witness:
  "integrity demo_db \<and>
   OrderViewSet_create demo_db 2 5
       [\<lparr>row = 2, seat = 1, movie_session = 1\<rparr>, \<lparr>row = 2, seat = 2, movie_session = 1\<rparr>]
     = (Inr \<lparr>order_id = 2, created_at = 5, user = 2\<rparr>,
        demo_db\<lparr>Order_objects := Order_objects demo_db @ [\<lparr>order_id = 2, created_at = 5, user = 2\<rparr>],
                Ticket_objects := Ticket_objects demo_db @
                  [\<lparr>row = 2, seat = 1, movie_session = 1, order = 2, ticket_id = 2\<rparr>,
                   \<lparr>row = 2, seat = 2, movie_session = 1, order = 2, ticket_id = 3\<rparr>]\<rparr>) \<and>
   length (filter (\<lambda>t. order t = 2)
     (Ticket_objects (demo_db\<lparr>Order_objects := Order_objects demo_db @ [\<lparr>order_id = 2, created_at = 5, user = 2\<rparr>],
                Ticket_objects := Ticket_objects demo_db @
                  [\<lparr>row = 2, seat = 1, movie_session = 1, order = 2, ticket_id = 2\<rparr>,
                   \<lparr>row = 2, seat = 2, movie_session = 1, order = 2, ticket_id = 3\<rparr>]\<rparr>))) = 2"
proof -
  have c: "OrderViewSet_create demo_db 2 5
       [\<lparr>row = 2, seat = 1, movie_session = 1\<rparr>, \<lparr>row = 2, seat = 2, movie_session = 1\<rparr>]
     = (Inr \<lparr>order_id = 2, created_at = 5, user = 2\<rparr>,
        demo_db\<lparr>Order_objects := Order_objects demo_db @ [\<lparr>order_id = 2, created_at = 5, user = 2\<rparr>],
                Ticket_objects := Ticket_objects demo_db @
                  [\<lparr>row = 2, seat = 1, movie_session = 1, order = 2, ticket_id = 2\<rparr>,
                   \<lparr>row = 2, seat = 2, movie_session = 1, order = 2, ticket_id = 3\<rparr>]\<rparr>)"
    by (simp add: eval_defs)
  from successful_order_ticket_count [OF demo_integrity c] demo_integrity c
  show ?thesis by simp
qed

subsection \<open>The seat invariant\<close>

lemma get_session_Some: "get_session st k = Some ms \<Longrightarrow> ms \<in> set (MovieSession_objects st) \<and> session_id ms = k"
  unfolding get_session_def by (drule find_Some_mem) simp


lemma valid_item_free:
  assumes "run_child_validation st a = Inr a"
  shows "key_of a \<notin> seat_key ` set (Ticket_objects st)"
proof
  assume "key_of a \<in> seat_key ` set (Ticket_objects st)"
  then obtain t where t: "t \<in> set (Ticket_objects st)" "seat_key t = key_of a" by auto
  from run_child_Inr [OF assms] obtain ms where
    ms: "get_session st (movie_session a) = Some ms" and
    free: "Ticket_objects_filter st (session_id ms) (row a) (seat a) = []" by blast
  from get_session_Some [OF ms] have "session_id ms = movie_session a" by simp
  with t have "t \<in> set (Ticket_objects_filter st (session_id ms) (row a) (seat a))"
    by (simp add: Ticket_objects_filter_def seat_key_def key_of_def)
  with free show False by simp
qed

text \<open>The state after a request is one of four.\<close>

lemma snd_step_cases:
  obtains (same) "snd (step st req) = st"
  | (create) usr now data ord where "req = OrderCreate (Some usr) now data"
      "OrderViewSet_create st usr now data = (Inr ord, snd (step st req))"
  | (destroy) usr pk x where "req = OrderDestroy (Some usr) pk"
      "OrderViewSet_get_object st usr pk = Inr x" "snd (step st req) = Order_delete st x"
  | (hall) pk name r s hall where "req = CinemaHallUpdate pk name r s"
      "get_hall st pk = Some hall"
      "snd (step st req) = st\<lparr>CinemaHall_objects :=
          map (\<lambda>h. if hall_id h = pk
                   then h\<lparr>hall_name := name, rows := r, seats_in_row := s\<rparr> else h)
              (CinemaHall_objects st)\<rparr>"
proof (cases req)
  case (OrderCreate u now data)
  show ?thesis
  proof (cases u)
    case None
    with OrderCreate same show ?thesis by simp
  next
    case (Some usr)
    obtain r st' where v: "OrderViewSet_create st usr now data = (r, st')"
      by (cases "OrderViewSet_create st usr now data")
    show ?thesis
    proof (cases r)
      case (Inl e)
      with v have "st' = st" using view_create_Inl by simp
      with v OrderCreate Some same show ?thesis by simp
    next
      case (Inr ord)
      with v OrderCreate Some create [of usr now data ord] show ?thesis by simp
    qed
  qed
next
  case (OrderList u n)
  with same show ?thesis by (cases u) simp_all
next
  case (OrderRetrieve u pk)
  with same show ?thesis by (cases u) simp_all
next
  case (OrderDestroy u pk)
  show ?thesis
  proof (cases u)
    case None
    with OrderDestroy same show ?thesis by simp
  next
    case (Some usr)
    show ?thesis
    proof (cases "OrderViewSet_get_object st usr pk")
      case (Inl e)
      with OrderDestroy Some same show ?thesis by (simp add: OrderViewSet_destroy_def)
    next
      case (Inr x)
      with OrderDestroy Some destroy [of usr pk x] show ?thesis
        by (simp add: OrderViewSet_destroy_def)
    qed
  qed
next
  case (MovieSessionList d m)
  with same show ?thesis by simp
next
  case (MovieSessionRetrieve pk)
  with same show ?thesis by (simp split: option.splits)
next
  case (CinemaHallUpdate pk name r s)
  show ?thesis
  proof (cases "get_hall st pk")
    case None
    with CinemaHallUpdate same show ?thesis by (simp add: CinemaHallViewSet_update_def)
  next
    case (Some h)
    with CinemaHallUpdate hall [of pk name r s h] show ?thesis
      by (simp add: CinemaHallViewSet_update_def)
  qed
qed

lemma get_object_Inr:
  "OrderViewSet_get_object st usr pk = Inr x \<Longrightarrow>
     x \<in> set (Order_objects st) \<and> user x = usr \<and> order_id x = pk"
  by (auto simp: OrderViewSet_get_object_def OrderViewSet_get_queryset_def
      split: option.splits dest: find_Some_mem)

lemma create_seats_unique:
  assumes "seats_unique st" and "OrderViewSet_create st usr now data = (Inr ord, st')"
  shows "seats_unique st'"
proof -
  from view_create_Inr [OF assms(2)] have v: "is_valid st data = Inr data"
    and b: "create_body usr now data st = (Inr ord, st')" by simp_all
  from create_body_Inr [OF b] obtain new where
    t: "Ticket_objects st' = Ticket_objects st @ new" and
    m: "map fields_of new = map (new_ticket ord) data"
    by (auto simp: created_def)
  have k: "map seat_key new = map key_of data" by (rule created_new_tickets(3) [OF t m])
  from is_valid_Inr [OF v] have d: "distinct (map key_of data)"
    and ok: "\<forall>item\<in>set data. run_child_validation st item = Inr item" by simp_all
  have "key_of a \<notin> seat_key ` set (Ticket_objects st)" if "a \<in> set data" for a
    using ok that by (intro valid_item_free) simp
  then have "key_of ` set data \<inter> seat_key ` set (Ticket_objects st) = {}"
    by blast
  then have "set (map key_of data) \<inter> set (map seat_key (Ticket_objects st)) = {}"
    by simp
  with d k assms(1) show ?thesis by (simp add: seats_unique_def t Int_commute)
qed

lemma seats_unique_step: "seats_unique st \<Longrightarrow> seats_unique (snd (step st req))"
proof (cases rule: snd_step_cases [of st req])
  case same
  then show "seats_unique st \<Longrightarrow> ?thesis" by simp
next
  case (create usr now data ord)
  then show "seats_unique st \<Longrightarrow> ?thesis" using create_seats_unique by blast
next
  case (destroy usr pk x)
  then show "seats_unique st \<Longrightarrow> ?thesis"
    by (simp add: seats_unique_def Order_delete_def distinct_map_filter)
next
  case (hall pk name r s h)
  then show "seats_unique st \<Longrightarrow> ?thesis" by (simp add: seats_unique_def)
qed

text \<open>
  Claim C7.  Every request keeps the seat invariant: when no two tickets share
  session, row and seat before a request, none do after it.
\<close>

theorem seat_uniqueness_preserved:
  assumes "seats_unique st"
  shows "seats_unique (snd (step st req))"
  using assms by (rule seats_unique_step)

text \<open>
  An instance of C7.
\<close>

theorem seat_uniqueness_preserved_witness:
  "seats_unique demo_db \<and>
   seats_unique (snd (step demo_db (OrderCreate (Some 2) 5 [\<lparr>row = 2, seat = 1, movie_session = 1\<rparr>])))"
proof -
  have u: "seats_unique demo_db" by (simp add: seats_unique_def demo_db_def seat_key_def)
  show ?thesis by (rule conjI [OF u seat_uniqueness_preserved [OF u]])
qed

subsection \<open>Consistency of keys\<close>






subsection \<open>Availability\<close>


lemma Count_eq:
  assumes "distinct (map ticket_id (Ticket_objects st))"
  shows "Count_tickets_distinct st ms = int (length (tickets_of st ms))"
proof -
  from assms have "distinct (map ticket_id (tickets_of st ms))"
    unfolding tickets_of_def by (rule distinct_map_filter)
  then have "length (remdups (map ticket_id (tickets_of st ms))) = length (tickets_of st ms)"
    by (simp add: distinct_remdups_id)
  then show ?thesis unfolding Count_tickets_distinct_def tickets_of_def by simp
qed

lemma annotate_Some:
  assumes "get_hall st (cinema_hall ms) = Some hall"
  shows "\<exists>a. annotate st ms = Some a \<and> session_id a = session_id ms \<and>
     tickets_sold a = Count_tickets_distinct st ms \<and>
     hall_capacity a = rows hall * seats_in_row hall \<and>
     tickets_available a = rows hall * seats_in_row hall - Count_tickets_distinct st ms"
  using assms by (simp add: annotate_def Let_def)

lemma set_map_filter_Some:
  "set (List.map_filter f xs) = {y. \<exists>x\<in>set xs. f x = Some y}"
proof (induction xs)
  case Nil
  show ?case by (simp add: List.map_filter_simps)
next
  case (Cons x xs)
  show ?case
  proof (cases "f x")
    case None
    with Cons show ?thesis by (auto simp: List.map_filter_simps)
  next
    case (Some y)
    with Cons show ?thesis by (auto simp: List.map_filter_simps)
  qed
qed

lemma queryset_iff:
  "a \<in> set (MovieSessionViewSet_queryset st) \<longleftrightarrow>
     (\<exists>ms\<in>set (MovieSession_objects st). annotate st ms = Some a)"
  by (simp add: MovieSessionViewSet_queryset_def set_map_filter_Some)

text \<open>
  Claim C1.  In a store with consistent keys, the annotated queryset of the
  session endpoint has, for every session, a row whose
  \<^verbatim>\<open>tickets_available\<close> is the rows of the hall of the session times its
  seats in a row, minus the number of tickets of the ticket table that point
  to the session; and the list action leaves the store as it was.
\<close>

theorem tickets_available_value:
  assumes "integrity st" and "ms \<in> set (MovieSession_objects st)"
  shows "\<exists>hall a. get_hall st (cinema_hall ms) = Some hall \<and> annotate st ms = Some a \<and>
     a \<in> set (MovieSessionViewSet_queryset st) \<and>
     tickets_available a =
       rows hall * seats_in_row hall -
       int (length (filter (\<lambda>t. movie_session t = session_id ms) (Ticket_objects st))) \<and>
     snd (step st (MovieSessionList date_value movie_param)) = st"
proof -
  from assms have "cinema_hall ms \<in> hall_id ` set (CinemaHall_objects st)"
    by (simp add: integrity_def)
  then obtain hall where h: "get_hall st (cinema_hall ms) = Some hall"
    unfolding get_hall_Some_ex [symmetric] by blast
  from annotate_Some [OF h] obtain a where a: "annotate st ms = Some a"
    "tickets_available a = rows hall * seats_in_row hall - Count_tickets_distinct st ms"
    by blast
  from assms(1) have "distinct (map ticket_id (Ticket_objects st))" by (simp add: integrity_def)
  from Count_eq [OF this] have c: "Count_tickets_distinct st ms =
      int (length (filter (\<lambda>t. movie_session t = session_id ms) (Ticket_objects st)))"
    by (simp add: tickets_of_def)
  have q: "a \<in> set (MovieSessionViewSet_queryset st)"
    unfolding queryset_iff using assms(2) a(1) by blast
  have s: "snd (step st (MovieSessionList date_value movie_param)) = st" by simp
  show ?thesis using h a(1) q a(2) s unfolding c by blast
qed

text \<open>
  An instance of C1: a hall of two by two seats with one ticket sold.
\<close>

theorem tickets_available_value_witness:
  "integrity demo_db \<and>
   \<lparr>session_id = 1, show_time = (0, 0), movie = 1, cinema_hall = 1\<rparr>
      \<in> set (MovieSession_objects demo_db) \<and>
   map tickets_available (MovieSessionViewSet_queryset demo_db) = [3] \<and>
   (\<exists>hall a. get_hall demo_db 1 = Some hall \<and>
      annotate demo_db \<lparr>session_id = 1, show_time = (0, 0), movie = 1, cinema_hall = 1\<rparr> = Some a \<and>
      a \<in> set (MovieSessionViewSet_queryset demo_db) \<and>
      tickets_available a = rows hall * seats_in_row hall - 1 \<and>
      snd (step demo_db (MovieSessionList None None)) = demo_db)"
proof -
  let ?ms = "\<lparr>session_id = 1, show_time = (0, 0), movie = 1, cinema_hall = 1\<rparr>"
  have m: "?ms \<in> set (MovieSession_objects demo_db)" by (simp add: demo_db_def)
  have v: "map tickets_available (MovieSessionViewSet_queryset demo_db) = [3]"
    by (simp add: run_defs demo_db_def get_hall_def)
  have c: "int (length (filter (\<lambda>t. movie_session t = session_id ?ms) (Ticket_objects demo_db))) = 1"
    by (simp add: demo_db_def)
  from tickets_available_value [OF demo_integrity m, of None None] demo_integrity m v
  show ?thesis unfolding c by simp
qed




subsection \<open>Availability over sequences of requests\<close>









subsection \<open>Persistence of orders and tickets\<close>







subsection \<open>The order list of a user\<close>

lemma queryset_own:
  "x \<in> set (OrderViewSet_get_queryset st usr) \<longleftrightarrow> x \<in> set (Order_objects st) \<and> user x = usr"
  by (simp add: OrderViewSet_get_queryset_def)

lemma paginate_subset:
  "paginate_queryset qs n = Inr (count, page) \<Longrightarrow> set page \<subseteq> set qs"
proof -
  assume "paginate_queryset qs n = Inr (count, page)"
  then have "page = take (nat page_size) (drop (nat ((n - 1) * page_size)) qs)"
    by (simp add: paginate_queryset_def Let_def split: if_splits)
  then show ?thesis using set_take_subset set_drop_subset by fastforce
qed

lemma list_page_own:
  assumes "OrderViewSet_list st usr n = Inr (count, page)"
  shows "\<forall>r\<in>set page. \<exists>x\<in>set (Order_objects st). user x = usr \<and> r = OrderListSerializer st x"
proof -
  from assms obtain qpage where
    p: "paginate_queryset (OrderViewSet_get_queryset st usr) n = Inr (count, qpage)" and
    m: "page = map (OrderListSerializer st) qpage"
    by (auto simp: OrderViewSet_list_def split: sum.splits)
  from paginate_subset [OF p] have "\<forall>x\<in>set qpage. x \<in> set (Order_objects st) \<and> user x = usr"
    using queryset_own by blast
  then show ?thesis unfolding m by auto
qed

lemma serializer_cong:
  assumes "MovieSession_objects st' = MovieSession_objects st"
    and "CinemaHall_objects st' = CinemaHall_objects st"
    and "filter (\<lambda>t. order t = order_id x) (Ticket_objects st') =
         filter (\<lambda>t. order t = order_id x) (Ticket_objects st)"
  shows "OrderListSerializer st' x = OrderListSerializer st x"
proof -
  have gh: "get_hall st' = get_hall st" using assms(2) by (simp add: get_hall_def fun_eq_iff)
  have gs: "get_session st' = get_session st" using assms(1) by (simp add: get_session_def fun_eq_iff)
  have ms: "TicketMovieSessionShortSerializer st' = TicketMovieSessionShortSerializer st"
    by (rule ext) (simp add: TicketMovieSessionShortSerializer_def gh)
  have tl: "TicketListSerializer st' = TicketListSerializer st"
    by (rule ext) (simp add: TicketListSerializer_def gs ms)
  show ?thesis by (simp add: OrderListSerializer_def assms(3) tl)
qed

lemma list_cong:
  assumes "filter (\<lambda>x. user x = usr) (Order_objects st') = filter (\<lambda>x. user x = usr) (Order_objects st)"
    and "\<forall>x\<in>set (Order_objects st). user x = usr \<longrightarrow>
           OrderListSerializer st' x = OrderListSerializer st x"
  shows "OrderViewSet_list st' usr n = OrderViewSet_list st usr n"
proof -
  have q: "OrderViewSet_get_queryset st' usr = OrderViewSet_get_queryset st usr"
    by (simp add: OrderViewSet_get_queryset_def assms(1))
  show ?thesis
  proof (cases "paginate_queryset (OrderViewSet_get_queryset st usr) n")
    case (Inl e)
    then show ?thesis by (simp add: OrderViewSet_list_def q)
  next
    case (Inr r)
    obtain count page where r: "r = (count, page)" by (cases r)
    from paginate_subset [OF Inr [unfolded r]] assms(2)
    have "\<forall>x\<in>set page. OrderListSerializer st' x = OrderListSerializer st x"
      using queryset_own by blast
    then have "map (OrderListSerializer st') page = map (OrderListSerializer st) page" by simp
    then show ?thesis using Inr r by (simp add: OrderViewSet_list_def q)
  qed
qed

lemma create_other_user:
  assumes "OrderViewSet_create st other now data = (Inr ord, st')" and "other \<noteq> usr"
  shows "OrderViewSet_list st' usr n = OrderViewSet_list st usr n"
proof (rule list_cong)
  from view_create_Inr [OF assms(1)] have b: "create_body other now data st = (Inr ord, st')"
    by simp
  from create_body_Inr [OF b] obtain new where
    h: "CinemaHall_objects st' = CinemaHall_objects st" and
    s: "MovieSession_objects st' = MovieSession_objects st" and
    o: "Order_objects st' = Order_objects st @ [ord]" and
    t: "Ticket_objects st' = Ticket_objects st @ new" and
    m: "map fields_of new = map (new_ticket ord) data" and
    pk: "order_id ord = next_pk (map order_id (Order_objects st))" and
    u: "user ord = other"
    by (auto simp: created_def)
  show "filter (\<lambda>x. user x = usr) (Order_objects st') = filter (\<lambda>x. user x = usr) (Order_objects st)"
    using assms(2) u by (simp add: o)
  show "\<forall>x\<in>set (Order_objects st). user x = usr \<longrightarrow>
           OrderListSerializer st' x = OrderListSerializer st x"
  proof (intro ballI impI)
    fix x assume x: "x \<in> set (Order_objects st)"
    then have "order_id x \<in> set (map order_id (Order_objects st))" by simp
    from next_pk_fresh [OF this] have ne: "order_id x \<noteq> order_id ord" by (simp add: pk)
    have "filter (\<lambda>t. order t = order_id x) new = []"
      using created_new_tickets(2) [OF t m] ne by (auto simp: filter_empty_conv)
    then have "filter (\<lambda>t. order t = order_id x) (Ticket_objects st') =
         filter (\<lambda>t. order t = order_id x) (Ticket_objects st)" by (simp add: t)
    from serializer_cong [OF s h this] show "OrderListSerializer st' x = OrderListSerializer st x" .
  qed
qed

lemma destroy_other_user:
  assumes "integrity st" and "OrderViewSet_get_object st other pk = Inr x0" and "other \<noteq> usr"
  shows "OrderViewSet_list (Order_delete st x0) usr n = OrderViewSet_list st usr n"
proof (rule list_cong)
  from get_object_Inr [OF assms(2)] have x0: "x0 \<in> set (Order_objects st)" "user x0 = other"
    by simp_all
  from assms(1) have inj: "inj_on order_id (set (Order_objects st))"
    by (simp add: integrity_def distinct_map)
  have ne: "order_id x \<noteq> order_id x0" if "x \<in> set (Order_objects st)" "user x = usr" for x
  proof
    assume "order_id x = order_id x0"
    from inj_onD [OF inj this that(1) x0(1)] that(2) x0(2) assms(3) show False by simp
  qed
  show "filter (\<lambda>x. user x = usr) (Order_objects (Order_delete st x0)) =
      filter (\<lambda>x. user x = usr) (Order_objects st)"
    using ne by (auto simp: Order_delete_def intro: filter_cong)
  show "\<forall>x\<in>set (Order_objects st). user x = usr \<longrightarrow>
           OrderListSerializer (Order_delete st x0) x = OrderListSerializer st x"
  proof (intro ballI impI)
    fix x assume x: "x \<in> set (Order_objects st)" "user x = usr"
    have "filter (\<lambda>t. order t = order_id x) (Ticket_objects (Order_delete st x0)) =
         filter (\<lambda>t. order t = order_id x) (Ticket_objects st)"
      using ne [OF x] by (auto simp: Order_delete_def intro: filter_cong)
    then show "OrderListSerializer (Order_delete st x0) x = OrderListSerializer st x"
      by (intro serializer_cong) (simp_all add: Order_delete_def)
  qed
qed

lemma other_user_step:
  assumes "integrity st" and "other \<noteq> usr"
    and "req = OrderCreate (Some other) now data \<or> req = OrderDestroy (Some other) pk"
  shows "OrderViewSet_list (snd (step st req)) usr n = OrderViewSet_list st usr n"
proof (cases rule: snd_step_cases [of st req])
  case same
  then show ?thesis by simp
next
  case (create u now' data' ord)
  with assms(3) have "u = other" by auto
  with create(2) assms(2) show ?thesis using create_other_user by blast
next
  case (destroy u pk' x)
  with assms(3) have "u = other" by auto
  with destroy assms(1,2) show ?thesis using destroy_other_user by simp
next
  case (hall pk' name r s h)
  with assms(3) show ?thesis by auto
qed

text \<open>
  Claim C10.  The queryset of the order endpoint holds only orders of the
  requesting user, so every order on a page of the list action is an order of
  that user.  In a store with consistent keys the list response of a user is
  the same before and after another user creates or destroys an order.
\<close>

theorem order_list_only_own:
  assumes "integrity st" and "other \<noteq> usr"
  shows "(\<forall>x\<in>set (OrderViewSet_get_queryset st usr). x \<in> set (Order_objects st) \<and> user x = usr) \<and>
    (\<forall>count page. OrderViewSet_list st usr n = Inr (count, page) \<longrightarrow>
       (\<forall>r\<in>set page. \<exists>x\<in>set (Order_objects st). user x = usr \<and> r = OrderListSerializer st x)) \<and>
    OrderViewSet_list (snd (step st (OrderCreate (Some other) now data))) usr n =
      OrderViewSet_list st usr n \<and>
    OrderViewSet_list (snd (step st (OrderDestroy (Some other) pk))) usr n =
      OrderViewSet_list st usr n"
proof (intro conjI)
  show "\<forall>x\<in>set (OrderViewSet_get_queryset st usr). x \<in> set (Order_objects st) \<and> user x = usr"
    by (simp add: queryset_own)
  show "\<forall>count page. OrderViewSet_list st usr n = Inr (count, page) \<longrightarrow>
       (\<forall>r\<in>set page. \<exists>x\<in>set (Order_objects st). user x = usr \<and> r = OrderListSerializer st x)"
    using list_page_own by blast
  show "OrderViewSet_list (snd (step st (OrderCreate (Some other) now data))) usr n =
      OrderViewSet_list st usr n"
    by (rule other_user_step [OF assms]) simp
  show "OrderViewSet_list (snd (step st (OrderDestroy (Some other) pk))) usr n =
      OrderViewSet_list st usr n"
    by (rule other_user_step [OF assms]) simp
qed

text \<open>
  An instance of C10: user 1 sees the same page while user 2 books or tries
  to delete.
\<close>

theorem order_list_only_own_witness:
  "integrity demo_db \<and> (2::int) \<noteq> 1 \<and>
   list_all (\<lambda>x. x \<in> set (Order_objects demo_db) \<and> user x = 1)
     (OrderViewSet_get_queryset demo_db 1) \<and>
   OrderViewSet_list (snd (step demo_db
       (OrderCreate (Some 2) 5 [\<lparr>row = 2, seat = 1, movie_session = 1\<rparr>]))) 1 1 =
     OrderViewSet_list demo_db 1 1 \<and>
   OrderViewSet_list (snd (step demo_db (OrderDestroy (Some 2) 1))) 1 1 =
     OrderViewSet_list demo_db 1 1 \<and>
   OrderViewSet_list demo_db 1 1 =
     Inr (1, [(1, [(1, 1, 1, Some (1, (0, 0), 1, Some ''Blue'', Some 4))], 0)]) \<and>
   OrderViewSet_list demo_db 2 1 = Inr (0, [])"
proof -
  have ne: "(2::int) \<noteq> 1" by simp
  have l1: "OrderViewSet_list demo_db 1 1 =
     Inr (1, [(1, [(1, 1, 1, Some (1, (0, 0), 1, Some ''Blue'', Some 4))], 0)])"
    by (simp add: OrderViewSet_list_def paginate_queryset_def page_size_def
        OrderViewSet_get_queryset_def OrderListSerializer_def TicketListSerializer_def
        TicketMovieSessionShortSerializer_def capacity_def get_session_def get_hall_def
        demo_db_def Let_def)
  have l2: "OrderViewSet_list demo_db 2 1 = Inr (0, [])"
    by (simp add: OrderViewSet_list_def paginate_queryset_def page_size_def
        OrderViewSet_get_queryset_def demo_db_def Let_def)
  note main = order_list_only_own [OF demo_integrity ne, of 1 5
      "[\<lparr>row = 2, seat = 1, movie_session = 1\<rparr>]" 1]
  from main have "list_all (\<lambda>x. x \<in> set (Order_objects demo_db) \<and> user x = 1)
     (OrderViewSet_get_queryset demo_db 1)"
    unfolding list_all_iff by blast
  with main demo_integrity ne l1 l2 show ?thesis by blast
qed

end
